theory Spec2Isabelle
  imports Complex_Main "HOL-Library.Word"
begin

unbundle bit_operations_syntax

section \<open>Data model\<close>

text \<open>
  A \<open>uint8_t\<close> is an 8-bit word: \<open>+\<close> wraps modulo 256 and \<open>NOT\<close> is the bitwise
  complement \<open>~\<close>. A buffer (\<open>uint8_t *buffer\<close>) is the list of the bytes of the array
  the pointer points into. C gives no meaning to a read or write outside the array;
  the model makes that an explicit result: \<open>rd\<close> returns \<open>None\<close> there, and every
  function that reads the buffer returns \<open>None\<close> as soon as one of its reads does.
\<close>

type_synonym byte = "8 word"

definition rd :: "byte list \<Rightarrow> nat \<Rightarrow> byte option" where
  "rd buffer i = (if i < length buffer then Some (buffer ! i) else None)"

section \<open>GyroParser.c: validation\<close>

text \<open>
  \<open>ValidateCRC\<close>: \<open>uint8_t sum = 0; for (int i = 0; i < 14; i++) sum += buffer[i];
  sum = ~sum; return (sum == buffer[14]);\<close>. The loop is the recursive function
  \<open>ValidateCRC_loop\<close> on the loop counter and the running sum (\<open>csum\<close> for the
  source's \<open>sum\<close>).
\<close>

function ValidateCRC_loop :: "byte list \<Rightarrow> nat \<Rightarrow> byte \<Rightarrow> byte option" where
  "ValidateCRC_loop buffer i csum =
     (if i < 14 then
        (case rd buffer i of
           None \<Rightarrow> None
         | Some b \<Rightarrow> ValidateCRC_loop buffer (i + 1) (csum + b))
      else Some csum)"
  by pat_completeness auto
termination
  by (relation "measure (\<lambda>(buffer, i, csum). 14 - i)") auto

declare ValidateCRC_loop.simps [simp del]

definition ValidateCRC :: "byte list \<Rightarrow> bool option" where
  "ValidateCRC buffer =
     (case ValidateCRC_loop buffer 0 0 of
        None \<Rightarrow> None
      | Some csum \<Rightarrow>
          (case rd buffer 14 of
             None \<Rightarrow> None
           | Some c \<Rightarrow> Some (NOT csum = c)))"

text \<open>
  \<open>ValidateBLEPacket\<close>: \<open>if (buffer[0] != 0x21 || buffer[1] != 0x47) return false;
  return ValidateCRC(buffer);\<close>. The \<open>||\<close> reads \<open>buffer[1]\<close> only when the first
  test is false.
\<close>

definition ValidateBLEPacket :: "byte list \<Rightarrow> bool option" where
  "ValidateBLEPacket buffer =
     (case rd buffer 0 of
        None \<Rightarrow> None
      | Some b0 \<Rightarrow>
          if b0 \<noteq> 0x21 then Some False
          else (case rd buffer 1 of
                  None \<Rightarrow> None
                | Some b1 \<Rightarrow>
                    if b1 \<noteq> 0x47 then Some False
                    else ValidateCRC buffer))"

section \<open>BLE\_UART.c: the second checksum routine\<close>

text \<open>\<open>checkCRC\<close> of BLE\_UART.c has the same body as \<open>ValidateCRC\<close>.\<close>

function checkCRC_loop :: "byte list \<Rightarrow> nat \<Rightarrow> byte \<Rightarrow> byte option" where
  "checkCRC_loop buffer i csum =
     (if i < 14 then
        (case rd buffer i of
           None \<Rightarrow> None
         | Some b \<Rightarrow> checkCRC_loop buffer (i + 1) (csum + b))
      else Some csum)"
  by pat_completeness auto
termination
  by (relation "measure (\<lambda>(buffer, i, csum). 14 - i)") auto

declare checkCRC_loop.simps [simp del]

definition checkCRC :: "byte list \<Rightarrow> bool option" where
  "checkCRC buffer =
     (case checkCRC_loop buffer 0 0 of
        None \<Rightarrow> None
      | Some csum \<Rightarrow>
          (case rd buffer 14 of
             None \<Rightarrow> None
           | Some c \<Rightarrow> Some (NOT csum = c)))"

section \<open>Floating-point values\<close>

text \<open>
  A C \<open>float\<close> is an IEEE-754 binary32 value; the model keeps its 32-bit pattern
  (\<open>float32\<close>). The only arithmetic the program does on floats is in
  \<open>MotorControlFromGyro\<close>: each operand is converted to \<open>double\<close> (exact for every
  binary32 value), \<open>fabs\<close> is applied or not, and the result is compared with the
  \<open>double\<close> constant \<open>0.2\<close> or \<open>-0.2\<close>. All of it is exact, so a \<open>double\<close> that
  arises is modelled by its exact value \<open>fp\<close>: a rational, an infinity or NaN.
  \<open>float_val\<close> reads sign (bit 31), biased exponent \<open>e\<close> (bits 30..23) and fraction
  \<open>m\<close> (bits 22..0) of the pattern; \<open>float_mag\<close> is the magnitude: \<open>m * 2^-149\<close> for a
  subnormal (\<open>e = 0\<close>) and \<open>(2^23 + m) * 2^(e - 150)\<close> otherwise. \<open>fabs\<close> is the
  function of the C library.
\<close>

type_synonym float32 = "32 word"

datatype fp = NaN | PInf | MInf | Fin rat

definition float_mag :: "nat \<Rightarrow> nat \<Rightarrow> rat" where
  "float_mag e m =
     (if e = 0 then rat_of_nat m / 2 ^ 149
      else if e < 150 then rat_of_nat (2 ^ 23 + m) / 2 ^ (150 - e)
      else rat_of_nat (2 ^ 23 + m) * 2 ^ (e - 150))"

definition float_val :: "float32 \<Rightarrow> fp" where
  "float_val w =
     (let s = bit w 31;
          e = unat (take_bit 8 (drop_bit 23 w));
          m = unat (take_bit 23 w)
      in if e = 255 then (if m = 0 then (if s then MInf else PInf) else NaN)
         else Fin (if s then - float_mag e m else float_mag e m))"

text \<open>
  The comparisons \<open><\<close> and \<open><=\<close> of C on doubles: false as soon as an operand is
  NaN. \<open>a > b\<close> is \<open>fp_less b a\<close>.
\<close>

fun fp_less :: "fp \<Rightarrow> fp \<Rightarrow> bool" where
  "fp_less NaN b = False"
| "fp_less a NaN = False"
| "fp_less (Fin a) (Fin b) = (a < b)"
| "fp_less MInf MInf = False"
| "fp_less MInf b = True"
| "fp_less PInf b = False"
| "fp_less (Fin a) PInf = True"
| "fp_less (Fin a) MInf = False"

fun fp_le :: "fp \<Rightarrow> fp \<Rightarrow> bool" where
  "fp_le NaN b = False"
| "fp_le a NaN = False"
| "fp_le (Fin a) (Fin b) = (a \<le> b)"
| "fp_le MInf b = True"
| "fp_le PInf PInf = True"
| "fp_le PInf b = False"
| "fp_le (Fin a) PInf = True"
| "fp_le (Fin a) MInf = False"

fun fp_neg :: "fp \<Rightarrow> fp" where
  "fp_neg NaN = NaN"
| "fp_neg PInf = MInf"
| "fp_neg MInf = PInf"
| "fp_neg (Fin a) = Fin (- a)"

fun fabs :: "fp \<Rightarrow> fp" where
  "fabs NaN = NaN"
| "fabs PInf = PInf"
| "fabs MInf = PInf"
| "fabs (Fin a) = Fin \<bar>a\<bar>"

text \<open>
  The literal \<open>0.2\<close> has type \<open>double\<close>: the binary64 value nearest to 1/5, which is
  \<open>3602879701896397 / 2^54\<close> (bit pattern \<open>0x3FC999999999999A\<close>).
\<close>

definition double_0_2 :: fp where
  "double_0_2 = Fin (3602879701896397 / 18014398509481984)"

section \<open>GyroParser.c: decoding\<close>

text \<open>
  \<open>ExtractFloat\<close>: \<open>float value; memcpy(&value, &buffer[offset], 4); return value;\<close>.
  \<open>memcpy\<close> copies the four bytes at \<open>buffer[offset..offset+3]\<close>, in address order,
  into the object representation of \<open>value\<close>. The program is built for the MSP432
  (\<open>msp.h\<close>), a little-endian Cortex-M4F: the byte at the lowest address of a
  32-bit object is its least significant byte, which \<open>float_of_object\<close> writes out.
\<close>

definition memcpy_src :: "byte list \<Rightarrow> nat \<Rightarrow> nat \<Rightarrow> byte list option" where
  "memcpy_src buffer start n =
     (if start + n \<le> length buffer then Some (take n (drop start buffer)) else None)"

definition float_of_object :: "byte list \<Rightarrow> float32" where
  "float_of_object bs = foldr (\<lambda>b w. ucast b OR push_bit 8 w) bs 0"

definition ExtractFloat :: "byte list \<Rightarrow> byte \<Rightarrow> float32 option" where
  "ExtractFloat buffer offset =
     (case memcpy_src buffer (unat offset) 4 of
        None \<Rightarrow> None
      | Some obj \<Rightarrow> Some (float_of_object obj))"

text \<open>
  The wire encoding in the words of the specification: a binary32 value as four
  bytes, least significant byte first.
\<close>

definition spec_le_bytes :: "float32 \<Rightarrow> byte list" where
  "spec_le_bytes w = [ucast w, ucast (drop_bit 8 w), ucast (drop_bit 16 w), ucast (drop_bit 24 w)]"

text \<open>
  \<open>ParseBLEPacket\<close> returns nothing; all it does is print. The model returns what it
  prints: \<open>Invalid BLE Packet\<close>, or the three parsed floats.
\<close>

datatype parse_output = Invalid_BLE_Packet | Parsed_Floats float32 float32 float32

definition ParseBLEPacket :: "byte list \<Rightarrow> parse_output option" where
  "ParseBLEPacket buffer =
     (case ValidateBLEPacket buffer of
        None \<Rightarrow> None
      | Some ok \<Rightarrow>
          if \<not> ok then Some Invalid_BLE_Packet
          else
            (case ExtractFloat buffer 2 of
               None \<Rightarrow> None
             | Some x \<Rightarrow>
                 (case ExtractFloat buffer 6 of
                    None \<Rightarrow> None
                  | Some y \<Rightarrow>
                      (case ExtractFloat buffer 10 of
                         None \<Rightarrow> None
                       | Some z \<Rightarrow> Some (Parsed_Floats x y z)))))"

section \<open>main.c: the command mapper\<close>

text \<open>
  The motor driver is outside the program; a call of it is a \<open>command\<close>, and
  \<open>MotorControlFromGyro\<close> returns the commands it issues, in program order. The three
  \<open>if\<close> statements of the source follow one another, so their commands are appended.
\<close>

datatype command =
    Motor_Forward nat nat
  | Motor_Backward nat nat
  | Motor_Right nat nat
  | Motor_Left nat nat
  | Motor_Stop

definition MotorControlFromGyro :: "float32 \<Rightarrow> float32 \<Rightarrow> float32 \<Rightarrow> command list" where
  "MotorControlFromGyro x y z =
     (if fp_less double_0_2 (float_val y) then [Motor_Forward 3000 3000]
      else if fp_less (float_val y) (fp_neg double_0_2) then [Motor_Backward 3000 3000]
      else [])
     @
     (if fp_less double_0_2 (float_val x) then [Motor_Right 3000 3000]
      else if fp_less (float_val x) (fp_neg double_0_2) then [Motor_Left 3000 3000]
      else [])
     @
     (if fp_le (fabs (float_val x)) double_0_2 \<and> fp_le (fabs (float_val y)) double_0_2
      then [Motor_Stop]
      else [])"

section \<open>BLE\_UART.c: the frame assembler\<close>

text \<open>
  \<open>BLE_UART_InChar\<close> waits for the next byte of the link. The link is the list of
  the bytes still to come; when it is empty the wait never ends (\<open>Blocked\<close>). A
  write through \<open>buffer_pointer\<close> beyond the array is \<open>Overrun\<close>. Otherwise the
  function returns \<open>length\<close>, and the model returns with it the buffer as it was left
  and the bytes not yet read.

  The loop state is the source's: \<open>len\<close> (\<open>length\<close>), \<open>state\<close>, and
  \<open>buffer_pointer\<close> as an offset \<open>bp\<close> from the start of the array. In the last
  branch the source sets \<open>length = 0\<close> and then computes
  \<open>buffer_pointer - length\<close>.
\<close>

datatype 'a outcome = Returned 'a | Blocked | Overrun

fun InString_loop ::
  "16 word \<Rightarrow> byte list \<Rightarrow> int \<Rightarrow> byte \<Rightarrow> nat \<Rightarrow> byte list \<Rightarrow> (int \<times> byte list \<times> byte list) outcome"
where
  "InString_loop buffer_size [] len state bp buffer =
     (if len < uint buffer_size then Blocked else Returned (len, buffer, []))"
| "InString_loop buffer_size (character # link) len state bp buffer =
     (if \<not> len < uint buffer_size then Returned (len, buffer, character # link)
      else if state = 0 \<and> character = 0x21 then
        (if bp < length buffer
         then InString_loop buffer_size link 1 1 (bp + 1) (buffer[bp := character])
         else Overrun)
      else if state = 1 \<and> character = 0x47 then
        (if bp < length buffer
         then InString_loop buffer_size link (len + 1) 2 (bp + 1) (buffer[bp := character])
         else Overrun)
      else if state = 2 then
        (if bp < length buffer
         then (if len + 1 = 15 then Returned (len + 1, buffer[bp := character], link)
               else InString_loop buffer_size link (len + 1) 2 (bp + 1) (buffer[bp := character]))
         else Overrun)
      else
        (let len' = 0
         in InString_loop buffer_size link len' 0 (nat (int bp - len')) buffer))"

definition BLE_UART_InString ::
  "byte list \<Rightarrow> byte list \<Rightarrow> 16 word \<Rightarrow> (int \<times> byte list \<times> byte list) outcome" where
  "BLE_UART_InString link buffer buffer_size = InString_loop buffer_size link 0 0 0 buffer"

text \<open>
  \<open>BLE_UART_HandleRxData\<close>, the handler of BLE\_UART.c (\<open>main\<close> does not call it):
  it returns early on a bad length, marker or checksum, and hands the packet to
  \<open>ParseBLEPacket\<close> otherwise. The model returns what it prints or passes on.
\<close>

datatype rx_output = Invalid_data_received | CRC_check_failed | Passed_on parse_output

definition BLE_UART_HandleRxData :: "byte list \<Rightarrow> byte \<Rightarrow> rx_output option" where
  "BLE_UART_HandleRxData buffer len =
     (if len \<noteq> 15 then Some Invalid_data_received
      else
        (case rd buffer 0 of
           None \<Rightarrow> None
         | Some b0 \<Rightarrow>
             if b0 \<noteq> 0x21 then Some Invalid_data_received
             else
               (case rd buffer 1 of
                  None \<Rightarrow> None
                | Some b1 \<Rightarrow>
                    if b1 \<noteq> 0x47 then Some Invalid_data_received
                    else
                      (case checkCRC buffer of
                         None \<Rightarrow> None
                       | Some ok \<Rightarrow>
                           if \<not> ok then Some CRC_check_failed
                           else map_option Passed_on (ParseBLEPacket buffer)))))"

section \<open>main.c: one pass of the main loop\<close>

text \<open>
  \<open>main_body\<close> is the body of \<open>if (string_size > 0)\<close> in \<open>main\<close> (the hexadecimal
  dump apart): \<open>ParseBLEPacket(BLE_UART_Buffer)\<close>, whose result is nothing, then the
  three \<open>ExtractFloat\<close> calls, then \<open>MotorControlFromGyro\<close>. It returns the commands
  issued. \<open>main_iteration\<close> is one pass of \<open>while (1)\<close>: it reads a packet from the
  link into the 128-byte buffer and runs the body.
\<close>

definition main_body :: "byte list \<Rightarrow> command list option" where
  "main_body buffer =
     (case ParseBLEPacket buffer of
        None \<Rightarrow> None
      | Some printed \<Rightarrow>
          (case ExtractFloat buffer 2 of
             None \<Rightarrow> None
           | Some x \<Rightarrow>
               (case ExtractFloat buffer 6 of
                  None \<Rightarrow> None
                | Some y \<Rightarrow>
                    (case ExtractFloat buffer 10 of
                       None \<Rightarrow> None
                     | Some z \<Rightarrow> Some (MotorControlFromGyro x y z)))))"

definition BLE_UART_BUFFER_SIZE :: "16 word" where
  "BLE_UART_BUFFER_SIZE = 128"

definition main_iteration ::
  "byte list \<Rightarrow> byte list \<Rightarrow> (command list option \<times> byte list \<times> byte list) outcome" where
  "main_iteration link buffer =
     (case BLE_UART_InString link buffer BLE_UART_BUFFER_SIZE of
        Blocked \<Rightarrow> Blocked
      | Overrun \<Rightarrow> Overrun
      | Returned (string_size, buffer', link') \<Rightarrow>
          Returned (if string_size > 0 then main_body buffer' else Some [], buffer', link'))"

section \<open>The assembler's loop invariant\<close>


section \<open>Properties of the validation\<close>

lemma ValidateCRC_loop_sum:
  "i \<le> 14 \<Longrightarrow> 14 \<le> length buffer \<Longrightarrow>
   ValidateCRC_loop buffer i s = Some (s + sum_list (drop i (take 14 buffer)))"
proof (induction buffer i s rule: ValidateCRC_loop.induct)
  case (1 buffer i csum)
  show ?case
  proof (cases "i < 14")
    case True
    then have il: "i < length buffer" using "1.prems" by simp
    have "i < length (take 14 buffer)" using True il by simp
    from Cons_nth_drop_Suc [OF this]
    have step: "drop i (take 14 buffer) = buffer ! i # drop (i + 1) (take 14 buffer)"
      using True by simp
    have "ValidateCRC_loop buffer i csum = ValidateCRC_loop buffer (i + 1) (csum + buffer ! i)"
      using True il by (subst ValidateCRC_loop.simps) (simp add: rd_def)
    also have "\<dots> = Some (csum + buffer ! i + sum_list (drop (i + 1) (take 14 buffer)))"
      using "1.IH" [of "buffer ! i"] True il "1.prems" by (simp add: rd_def)
    finally show ?thesis by (simp add: step add.assoc)
  next
    case False
    then have "i = 14" using "1.prems" by simp
    then show ?thesis by (subst ValidateCRC_loop.simps) simp
  qed
qed

lemma checkCRC_loop_eq: "checkCRC_loop buffer i s = ValidateCRC_loop buffer i s"
proof (induction buffer i s rule: ValidateCRC_loop.induct)
  case (1 buffer i csum)
  show ?case
    using "1.IH"
    by (subst checkCRC_loop.simps, subst ValidateCRC_loop.simps)
       (auto split: option.splits)
qed

lemma checkCRC_eq: "checkCRC buffer = ValidateCRC buffer"
  by (simp add: checkCRC_def ValidateCRC_def checkCRC_loop_eq)

lemma ValidateCRC_eq:
  "15 \<le> length buffer \<Longrightarrow>
   ValidateCRC buffer = Some (NOT (sum_list (take 14 buffer)) = buffer ! 14)"
  by (simp add: ValidateCRC_def ValidateCRC_loop_sum rd_def)

lemma ValidateBLEPacket_eq:
  "15 \<le> length buffer \<Longrightarrow>
   ValidateBLEPacket buffer =
     Some (buffer ! 0 = 0x21 \<and> buffer ! 1 = 0x47 \<and>
           NOT (sum_list (take 14 buffer)) = buffer ! 14)"
  by (cases "buffer ! 0 = 0x21"; cases "buffer ! 1 = 0x47")
     (auto simp add: ValidateBLEPacket_def ValidateCRC_eq rd_def)

section \<open>Words\<close>

lemma unat_sum_list_byte:
  "unat (sum_list xs :: byte) = sum_list (map unat xs) mod 256"
proof (induction xs)
  case Nil
  show ?case by simp
next
  case (Cons x xs)
  have "unat (x + sum_list xs) = (unat x + unat (sum_list xs)) mod 256"
    by (simp add: unat_word_ariths)
  also have "\<dots> = (unat x + sum_list (map unat xs)) mod 256"
    by (simp add: Cons.IH mod_add_right_eq)
  finally show ?case by simp
qed

lemma unat_NOT_byte: "unat (NOT w :: byte) = 255 - unat w"
proof -
  have le: "w \<le> 255" using unsigned_less [of w, where ?'a = nat] by (simp add: word_le_nat_alt)
  have "NOT w = 255 - w" by (simp add: not_eq_complement)
  then show ?thesis using unat_sub [OF le] by simp
qed

lemma byte_eq_unat: "(a :: byte) = b \<longleftrightarrow> unat a = unat b"
  by (simp add: word_unat_eq_iff)


text \<open>
  Claim C3. A 15-byte frame passes \<open>ValidateBLEPacket\<close> exactly when byte 0 is 0x21,
  byte 1 is 0x47 and byte 14 is the complement (255 minus) of the sum of bytes 0..13
  modulo 256. So a frame with a wrong marker byte fails whatever its checksum, and a
  frame whose last byte is replaced by that checksum passes as soon as its marker
  bytes are right.
\<close>

theorem ValidateBLEPacket_iff:
  assumes "length frame = 15"
  shows "ValidateBLEPacket frame =
           Some (frame ! 0 = 0x21 \<and> frame ! 1 = 0x47 \<and>
                 unat (frame ! 14) = 255 - sum_list (map unat (take 14 frame)) mod 256)
         \<and> (frame ! 0 \<noteq> 0x21 \<or> frame ! 1 \<noteq> 0x47 \<longrightarrow> ValidateBLEPacket frame = Some False)
         \<and> ValidateBLEPacket
               (take 14 frame @ [word_of_nat (255 - sum_list (map unat (take 14 frame)) mod 256)]) =
             Some (frame ! 0 = 0x21 \<and> frame ! 1 = 0x47)"
proof -
  let ?c = "255 - sum_list (map unat (take 14 frame)) mod 256"
  have ck: "(NOT (sum_list (take 14 frame)) = b) = (unat b = ?c)" for b :: byte
    by (simp add: byte_eq_unat unat_NOT_byte unat_sum_list_byte eq_commute)
  have main: "ValidateBLEPacket frame =
           Some (frame ! 0 = 0x21 \<and> frame ! 1 = 0x47 \<and> unat (frame ! 14) = ?c)"
    using assms by (simp add: ValidateBLEPacket_eq ck)
  let ?g = "take 14 frame @ [word_of_nat ?c :: byte]"
  have lg: "length ?g = 15" using assms by simp
  have g0: "?g ! 0 = frame ! 0" "?g ! 1 = frame ! 1" using assms by (simp_all add: nth_append)
  have g14: "?g ! 14 = word_of_nat ?c" using assms by (simp add: nth_append)
  have tg: "take 14 ?g = take 14 frame" using assms by simp
  have "?c < 256" by simp
  then have "?c mod 2 ^ LENGTH(8) = ?c" by simp
  then have uc: "unat (word_of_nat ?c :: byte) = ?c" by (simp only: unat_of_nat)
  have "ValidateBLEPacket ?g = Some (?g ! 0 = 0x21 \<and> ?g ! 1 = 0x47 \<and>
           NOT (sum_list (take 14 ?g)) = ?g ! 14)"
    using lg by (simp only: ValidateBLEPacket_eq)
  then have third: "ValidateBLEPacket ?g = Some (frame ! 0 = 0x21 \<and> frame ! 1 = 0x47)"
    by (simp only: g0 g14 tg ck uc) simp
  have second: "frame ! 0 \<noteq> 0x21 \<or> frame ! 1 \<noteq> 0x47 \<longrightarrow> ValidateBLEPacket frame = Some False"
    unfolding main by blast
  show ?thesis by (rule conjI [OF main conjI [OF second third]])
qed

theorem ValidateBLEPacket_iff_witness:
  "ValidateBLEPacket [0x21, 0x47, 0, 0, 0, 0, 0, 0, 0, 0x3F, 0, 0, 0, 0, 0x58] = Some True
   \<and> ValidateBLEPacket [0x21, 0x47, 0, 0, 0, 0, 0, 0, 0, 0x3F, 0, 0, 0, 0, 0x57] = Some False"
  using ValidateBLEPacket_iff [of "[0x21, 0x47, 0, 0, 0, 0, 0, 0, 0, 0x3F, 0, 0, 0, 0, 0x58]"]
        ValidateBLEPacket_iff [of "[0x21, 0x47, 0, 0, 0, 0, 0, 0, 0, 0x3F, 0, 0, 0, 0, 0x57]"]
  by simp

text \<open>
  Claim C8. \<open>ValidateBLEPacket\<close>, \<open>ValidateCRC\<close> and \<open>checkCRC\<close> depend on bytes
  0..14 of the buffer only: two buffers that agree there get the same result. None of
  them looks at a length, so the first 15 bytes of a buffer followed by anything else
  are judged as the buffer is.
\<close>

theorem Validate_first_15:
  assumes "15 \<le> length a" and "15 \<le> length b" and "\<forall>i<15. a ! i = b ! i"
  shows "ValidateBLEPacket a = ValidateBLEPacket b \<and> ValidateCRC a = ValidateCRC b
         \<and> checkCRC a = checkCRC b
         \<and> ValidateBLEPacket (take 15 a @ extra) = ValidateBLEPacket a"
proof -
  have t15: "take 15 a = take 15 b"
    using assms by (intro nth_take_lemma) simp_all
  have "take 14 (take 15 a) = take 14 (take 15 b)" using t15 by simp
  then have t14: "take 14 a = take 14 b" by simp
  have n: "a ! 0 = b ! 0" "a ! 1 = b ! 1" "a ! 14 = b ! 14" "a ! Suc 0 = b ! Suc 0"
    using assms(3) by simp_all
  have v: "ValidateBLEPacket a = ValidateBLEPacket b"
    using assms(1,2) by (simp add: ValidateBLEPacket_eq t14 n)
  have c: "ValidateCRC a = ValidateCRC b"
    using assms(1,2) by (simp add: ValidateCRC_eq t14 n)
  have e: "ValidateBLEPacket (take 15 a @ extra) = ValidateBLEPacket a"
    using assms(1) by (simp add: ValidateBLEPacket_eq nth_append)
  show ?thesis using v c e by (simp add: checkCRC_eq)
qed

theorem Validate_first_15_witness:
  "ValidateBLEPacket [0x21, 0x47, 0, 0, 0, 0, 0, 0, 0, 0x3F, 0, 0, 0, 0, 0x58, 7, 7] =
     ValidateBLEPacket [0x21, 0x47, 0, 0, 0, 0, 0, 0, 0, 0x3F, 0, 0, 0, 0, 0x58]
   \<and> ValidateBLEPacket ([0x21, 0x47, 0, 0, 0, 0, 0, 0, 0, 0x3F, 0, 0, 0, 0, 0x58] @ [1, 2, 3]) =
     Some True"
proof -
  let ?f = "[0x21, 0x47, 0, 0, 0, 0, 0, 0, 0, 0x3F, 0, 0, 0, 0, 0x58] :: byte list"
  have h1: "15 \<le> length (?f @ [7, 7])" and h2: "15 \<le> length ?f" by simp_all
  have h3: "\<forall>i<15. (?f @ [7, 7]) ! i = ?f ! i"
  proof (intro allI impI)
    fix i :: nat
    assume "i < 15"
    then have "i < length ?f" by simp
    then show "(?f @ [7, 7]) ! i = ?f ! i" by (simp only: nth_append if_True)
  qed
  have v: "ValidateBLEPacket ?f = Some True" by (simp add: ValidateBLEPacket_eq)
  show ?thesis
    using Validate_first_15 [OF h1 h2 h3, of "[1, 2, 3]"] v by simp
qed

section \<open>Properties of the command mapper\<close>

lemmas float_val_simps = float_val_def float_mag_def Let_def

lemma fv_zero: "float_val 0 = Fin 0" by (simp add: float_val_simps)
lemma fv_half: "float_val 0x3F000000 = Fin (1 / 2)" by (simp add: float_val_simps)
lemma fv_mhalf: "float_val 0xBF000000 = Fin (- 1 / 2)" by (simp add: float_val_simps)
lemma fv_tenth: "float_val 0x3DCCCCCD = Fin (13421773 / 134217728)" by (simp add: float_val_simps)
lemma fv_nan: "float_val 0x7FC00000 = NaN" by (simp add: float_val_simps)
lemma fv_quarter: "float_val 0x3E800000 = Fin (1 / 4)" by (simp add: float_val_simps)

lemma fp_less_NaN_right: "fp_less a NaN = False" by (cases a) simp_all
lemma fp_le_NaN_right: "fp_le a NaN = False" by (cases a) simp_all

text \<open>
  No binary32 value lies strictly between 1/5 and the \<open>double\<close> 0.2: values below
  1/8 and from 1/4 on are clear of both, and in between a binary32 value is a multiple
  of \<open>2^-26\<close>. So on the values of floats the tests against the literal \<open>0.2\<close> are
  tests against 1/5.
\<close>

lemma small_pow: "3 \<le> k \<Longrightarrow> (1 :: rat) / 2 ^ k \<le> 1 / 8"
proof -
  assume "3 \<le> k"
  then have "(2 :: rat) ^ 3 \<le> 2 ^ k" by (intro power_increasing) simp_all
  then show ?thesis by (simp add: field_simps)
qed

lemma mag_subnormal:
  fixes m :: nat
  assumes "m < 8388608"
  shows "rat_of_nat m / 2 ^ 149 \<le> 1 / 5"
proof -
  have "rat_of_nat m \<le> 8388608" using assms by simp
  then have "rat_of_nat m / 2 ^ 149 \<le> 8388608 / 2 ^ 149"
    by (rule divide_right_mono) simp
  also have "\<dots> \<le> 1 / 5" by simp
  finally show ?thesis .
qed

lemma mag_small:
  fixes m e :: nat
  assumes "m < 8388608" and "e < 124"
  shows "rat_of_nat (8388608 + m) / 2 ^ (150 - e) \<le> 1 / 5"
proof -
  have "rat_of_nat (8388608 + m) \<le> 2 ^ 24" using assms(1) by simp
  then have "rat_of_nat (8388608 + m) / 2 ^ (150 - e) \<le> 2 ^ 24 / 2 ^ (150 - e)"
    by (rule divide_right_mono) simp
  also have "\<dots> = 1 / 2 ^ (126 - e)"
  proof -
    have "150 - e = 24 + (126 - e)" using assms(2) by simp
    then have "(2 :: rat) ^ (150 - e) = 2 ^ 24 * 2 ^ (126 - e)" by (simp only: power_add)
    then show ?thesis by simp
  qed
  also have "\<dots> \<le> 1 / 8" using assms(2) by (intro small_pow) simp
  finally show ?thesis by simp
qed

lemma mag_binade:
  fixes m :: nat
  assumes "rat_of_nat (8388608 + m) / 2 ^ 26 \<le> 3602879701896397 / 18014398509481984"
  shows "rat_of_nat (8388608 + m) / 2 ^ 26 \<le> 1 / 5"
proof -
  have "rat_of_nat (8388608 + m) * 268435456 \<le> 3602879701896397"
    using assms by (simp add: field_simps)
  then have "rat_of_nat ((8388608 + m) * 268435456) \<le> rat_of_nat 3602879701896397"
    by simp
  then have "(8388608 + m) * 268435456 \<le> (3602879701896397 :: nat)"
    by (simp only: of_nat_le_iff)
  then have "8388608 + m \<le> 13421772" by simp
  then have "rat_of_nat (8388608 + m) \<le> rat_of_nat 13421772"
    by (simp only: of_nat_le_iff)
  then have "rat_of_nat (8388608 + m) / 2 ^ 26 \<le> rat_of_nat 13421772 / 2 ^ 26"
    by (rule divide_right_mono) simp
  also have "\<dots> \<le> 1 / 5" by simp
  finally show ?thesis .
qed

lemma mag_large:
  fixes m e :: nat
  assumes "124 < e" and "e < 150"
  shows "1 / 4 \<le> rat_of_nat (8388608 + m) / 2 ^ (150 - e)"
proof -
  have "(2 :: rat) ^ (150 - e) \<le> 2 ^ 25" using assms by (intro power_increasing) simp_all
  then have "(2 :: rat) ^ (150 - e) \<le> 4 * rat_of_nat (8388608 + m)" by simp
  then show ?thesis by (simp add: field_simps)
qed

lemma mag_huge:
  fixes m e :: nat
  shows "1 \<le> rat_of_nat (8388608 + m) * 2 ^ (e - 150)"
proof -
  have "(1 :: rat) * 1 \<le> rat_of_nat (8388608 + m) * 2 ^ (e - 150)"
    by (rule mult_mono) simp_all
  then show ?thesis by simp
qed


lemma float_mag_threshold:
  assumes "m < 8388608"
    and "float_mag e m \<le> 3602879701896397 / 18014398509481984"
  shows "float_mag e m \<le> 1 / 5"
proof -
  consider "e = 0" | "0 < e" "e < 124" | "e = 124" | "124 < e" "e < 150" | "150 \<le> e"
    by linarith
  then show ?thesis
  proof cases
    case 1
    then show ?thesis using mag_subnormal [OF assms(1)] by (simp add: float_mag_def)
  next
    case 2
    then show ?thesis using mag_small [OF assms(1) 2(2)] by (simp add: float_mag_def)
  next
    case 3
    then show ?thesis using mag_binade [of m] assms(2) by (simp add: float_mag_def)
  next
    case 4
    have "float_mag e m = rat_of_nat (8388608 + m) / 2 ^ (150 - e)"
      using 4 by (simp add: float_mag_def)
    then have "1 / 4 \<le> float_mag e m" using mag_large [OF 4, of m] by simp
    then have "(1 :: rat) / 4 \<le> 3602879701896397 / 18014398509481984"
      using assms(2) by (rule order_trans)
    then show ?thesis by simp
  next
    case 5
    have "float_mag e m = rat_of_nat (8388608 + m) * 2 ^ (e - 150)"
      using 5 by (simp add: float_mag_def)
    then have "1 \<le> float_mag e m" using mag_huge [of m e] by simp
    then have "(1 :: rat) \<le> 3602879701896397 / 18014398509481984"
      using assms(2) by (rule order_trans)
    then show ?thesis by simp
  qed
qed

lemma float_mag_nonneg: "0 \<le> float_mag e m"
  by (simp add: float_mag_def)

lemma fraction_bound: "unat (take_bit 23 (w :: float32)) < 8388608"
proof -
  have "unat (take_bit 23 w) = take_bit 23 (unat w)" by (simp add: unsigned_take_bit_eq)
  also have "\<dots> < 2 ^ 23" by (rule take_bit_nat_less_exp)
  finally show ?thesis by simp
qed

lemma float_val_Fin:
  assumes "float_val w = Fin r"
  shows "\<exists>e m. m < 8388608 \<and> \<bar>r\<bar> = float_mag e m"
proof -
  let ?e = "unat (take_bit 8 (drop_bit 23 w))"
  let ?m = "unat (take_bit 23 w)"
  have "r = float_mag ?e ?m \<or> r = - float_mag ?e ?m"
    using assms by (auto simp add: float_val_def Let_def split: if_splits)
  then have "\<bar>r\<bar> = float_mag ?e ?m"
    using float_mag_nonneg [of ?e ?m] by auto
  then show ?thesis using fraction_bound [of w] by blast
qed

lemma float_threshold_exact:
  assumes "float_val w = Fin r"
  shows "\<bar>r\<bar> \<le> 3602879701896397 / 18014398509481984 \<longleftrightarrow> \<bar>r\<bar> \<le> 1 / 5"
proof
  assume a: "\<bar>r\<bar> \<le> 3602879701896397 / 18014398509481984"
  obtain e m where em: "m < 8388608" "\<bar>r\<bar> = float_mag e m"
    using float_val_Fin [OF assms] by blast
  show "\<bar>r\<bar> \<le> 1 / 5" using float_mag_threshold [OF em(1)] a em(2) by simp
next
  assume "\<bar>r\<bar> \<le> 1 / 5"
  then show "\<bar>r\<bar> \<le> 3602879701896397 / 18014398509481984" by simp
qed

lemma within_threshold_iff:
  "fp_le (fabs (float_val w)) double_0_2 \<longleftrightarrow> (\<exists>r. float_val w = Fin r \<and> \<bar>r\<bar> \<le> 1 / 5)"
  using float_threshold_exact [of w]
  by (cases "float_val w") (simp_all add: double_0_2_def)

lemma above_threshold_iff:
  "fp_less double_0_2 (float_val w) \<longleftrightarrow>
     float_val w = PInf \<or> (\<exists>r. float_val w = Fin r \<and> 1 / 5 < r)"
proof (cases "float_val w")
  case (Fin r)
  have "3602879701896397 / 18014398509481984 < r \<longleftrightarrow> 1 / 5 < r"
    using float_threshold_exact [OF Fin] by (cases "0 \<le> r") auto
  then show ?thesis using Fin by (simp add: double_0_2_def)
qed (simp_all add: double_0_2_def)

lemma below_threshold_iff:
  "fp_less (float_val w) (fp_neg double_0_2) \<longleftrightarrow>
     float_val w = MInf \<or> (\<exists>r. float_val w = Fin r \<and> r < - (1 / 5))"
proof (cases "float_val w")
  case (Fin r)
  have "r < - (3602879701896397 / 18014398509481984) \<longleftrightarrow> r < - (1 / 5)"
    using float_threshold_exact [OF Fin] by (cases "0 \<le> r") auto
  then show ?thesis using Fin by (simp add: double_0_2_def)
qed (simp_all add: double_0_2_def)


text \<open>
  Claim C4. The threshold scenarios. The samples are given by their binary32
  patterns: \<open>0x00000000\<close> is 0, \<open>0x3F000000\<close> is 0.5, \<open>0xBF000000\<close> is -0.5 and
  \<open>0x3DCCCCCD\<close> is the binary32 value nearest to 0.1 (within half a unit in the last
  place, \<open>2^-28\<close>). (0, 0.5, 0) gives Forward(3000,3000); (0, -0.5, 0) Backward;
  (0.5, 0, 0) Right; (-0.5, 0, 0) Left; (0.1, 0.1, 0) Stop; and (0.5, 0.5, 0) gives
  Forward then Right.
\<close>

theorem threshold_scenarios:
  "float_val 0 = Fin 0 \<and> float_val 0x3F000000 = Fin (1 / 2) \<and>
   float_val 0xBF000000 = Fin (- 1 / 2) \<and>
   float_val 0x3DCCCCCD = Fin (13421773 / 134217728) \<and>
   \<bar>13421773 / 134217728 - 1 / 10 :: rat\<bar> \<le> 1 / 2 ^ 28 \<and>
   MotorControlFromGyro 0 0x3F000000 0 = [Motor_Forward 3000 3000] \<and>
   MotorControlFromGyro 0 0xBF000000 0 = [Motor_Backward 3000 3000] \<and>
   MotorControlFromGyro 0x3F000000 0 0 = [Motor_Right 3000 3000] \<and>
   MotorControlFromGyro 0xBF000000 0 0 = [Motor_Left 3000 3000] \<and>
   MotorControlFromGyro 0x3DCCCCCD 0x3DCCCCCD 0 = [Motor_Stop] \<and>
   MotorControlFromGyro 0x3F000000 0x3F000000 0 = [Motor_Forward 3000 3000, Motor_Right 3000 3000]"
  by (simp add: MotorControlFromGyro_def fv_zero fv_half fv_mhalf fv_tenth double_0_2_def)

text \<open>
  Claim C9. One call of \<open>MotorControlFromGyro\<close> never issues both Forward and
  Backward, and never both Right and Left, whatever the duties and the sample.
\<close>

theorem axis_branches_exclusive:
  "\<not> (Motor_Forward a b \<in> set (MotorControlFromGyro x y z) \<and>
      Motor_Backward c d \<in> set (MotorControlFromGyro x y z)) \<and>
   \<not> (Motor_Right a b \<in> set (MotorControlFromGyro x y z) \<and>
      Motor_Left c d \<in> set (MotorControlFromGyro x y z))"
  by (simp add: MotorControlFromGyro_def)

lemma fp_no_direction:
  "v \<noteq> NaN \<Longrightarrow> \<not> fp_less double_0_2 v \<Longrightarrow> \<not> fp_less v (fp_neg double_0_2) \<Longrightarrow>
   fp_le (fabs v) double_0_2"
  by (cases v) (auto simp add: double_0_2_def)

text \<open>
  Claim C6, as stated, fails in its second half: a sample with one axis within the
  threshold and the other over it does get a command. At x = 0.1 (\<open>0x3DCCCCCD\<close>) and
  y = 0.25 (\<open>0x3E800000\<close>), x is within 0.2 and y is not, and Forward is issued.
\<close>

theorem one_axis_over_threshold_counterexample:
  "float_val 0x3DCCCCCD = Fin (13421773 / 134217728) \<and>
   \<bar>13421773 / 134217728 :: rat\<bar> \<le> 1 / 5 \<and>
   float_val 0x3E800000 = Fin (1 / 4) \<and> \<not> \<bar>1 / 4 :: rat\<bar> \<le> 1 / 5 \<and>
   MotorControlFromGyro 0x3DCCCCCD 0x3E800000 0 = [Motor_Forward 3000 3000] \<and>
   MotorControlFromGyro 0x3DCCCCCD 0x3E800000 0 \<noteq> []"
  by (simp add: MotorControlFromGyro_def fv_tenth fv_quarter double_0_2_def)

text \<open>
  Claim C6, amended. Stop is issued only when x and y are both numbers of absolute
  value at most 0.2. When exactly one axis is within the threshold and the other is a
  number or an infinity beyond it, exactly one command is issued, the directional one
  of the other axis: Forward or Backward when it is y, Right or Left when it is x.
  No command at all is issued only when x or y is a NaN.
\<close>

theorem Stop_only_within_one_axis_emits:
  "(Motor_Stop \<in> set (MotorControlFromGyro x y z) \<longrightarrow>
      (\<exists>vx vy. float_val x = Fin vx \<and> float_val y = Fin vy \<and>
         \<bar>vx\<bar> \<le> 1 / 5 \<and> \<bar>vy\<bar> \<le> 1 / 5))
   \<and> ((\<exists>r. float_val x = Fin r \<and> \<bar>r\<bar> \<le> 1 / 5) \<and>
        \<not> (\<exists>r. float_val y = Fin r \<and> \<bar>r\<bar> \<le> 1 / 5) \<and> float_val y \<noteq> NaN \<longrightarrow>
        MotorControlFromGyro x y z = [Motor_Forward 3000 3000] \<or>
        MotorControlFromGyro x y z = [Motor_Backward 3000 3000])
   \<and> ((\<exists>r. float_val y = Fin r \<and> \<bar>r\<bar> \<le> 1 / 5) \<and>
        \<not> (\<exists>r. float_val x = Fin r \<and> \<bar>r\<bar> \<le> 1 / 5) \<and> float_val x \<noteq> NaN \<longrightarrow>
        MotorControlFromGyro x y z = [Motor_Right 3000 3000] \<or>
        MotorControlFromGyro x y z = [Motor_Left 3000 3000])
   \<and> (MotorControlFromGyro x y z = [] \<longrightarrow> float_val x = NaN \<or> float_val y = NaN)"
proof (intro conjI impI)
  assume "Motor_Stop \<in> set (MotorControlFromGyro x y z)"
  then have "fp_le (fabs (float_val x)) double_0_2 \<and> fp_le (fabs (float_val y)) double_0_2"
    by (auto simp add: MotorControlFromGyro_def split: if_splits)
  then show "\<exists>vx vy. float_val x = Fin vx \<and> float_val y = Fin vy \<and>
         \<bar>vx\<bar> \<le> 1 / 5 \<and> \<bar>vy\<bar> \<le> 1 / 5"
    by (auto simp add: within_threshold_iff)
next
  assume "(\<exists>r. float_val x = Fin r \<and> \<bar>r\<bar> \<le> 1 / 5) \<and>
        \<not> (\<exists>r. float_val y = Fin r \<and> \<bar>r\<bar> \<le> 1 / 5) \<and> float_val y \<noteq> NaN"
  then have wx: "fp_le (fabs (float_val x)) double_0_2"
    and wy: "\<not> fp_le (fabs (float_val y)) double_0_2" and ny: "float_val y \<noteq> NaN"
    by (simp_all add: within_threshold_iff)
  have dx: "\<not> fp_less double_0_2 (float_val x)" "\<not> fp_less (float_val x) (fp_neg double_0_2)"
    using wx by (cases "float_val x"; simp add: double_0_2_def)+
  have dy: "fp_less double_0_2 (float_val y) \<or> fp_less (float_val y) (fp_neg double_0_2)"
    using fp_no_direction [OF ny] wy by blast
  show "MotorControlFromGyro x y z = [Motor_Forward 3000 3000] \<or>
        MotorControlFromGyro x y z = [Motor_Backward 3000 3000]"
    using dx dy wy by (auto simp add: MotorControlFromGyro_def)
next
  assume "(\<exists>r. float_val y = Fin r \<and> \<bar>r\<bar> \<le> 1 / 5) \<and>
        \<not> (\<exists>r. float_val x = Fin r \<and> \<bar>r\<bar> \<le> 1 / 5) \<and> float_val x \<noteq> NaN"
  then have wy: "fp_le (fabs (float_val y)) double_0_2"
    and wx: "\<not> fp_le (fabs (float_val x)) double_0_2" and nx: "float_val x \<noteq> NaN"
    by (simp_all add: within_threshold_iff)
  have dy: "\<not> fp_less double_0_2 (float_val y)" "\<not> fp_less (float_val y) (fp_neg double_0_2)"
    using wy by (cases "float_val y"; simp add: double_0_2_def)+
  have dx: "fp_less double_0_2 (float_val x) \<or> fp_less (float_val x) (fp_neg double_0_2)"
    using fp_no_direction [OF nx] wx by blast
  show "MotorControlFromGyro x y z = [Motor_Right 3000 3000] \<or>
        MotorControlFromGyro x y z = [Motor_Left 3000 3000]"
    using dx dy wx by (auto simp add: MotorControlFromGyro_def)
next
  assume e: "MotorControlFromGyro x y z = []"
  show "float_val x = NaN \<or> float_val y = NaN"
  proof (rule ccontr)
    assume "\<not> (float_val x = NaN \<or> float_val y = NaN)"
    then have "MotorControlFromGyro x y z \<noteq> []"
      using fp_no_direction [of "float_val x"] fp_no_direction [of "float_val y"]
      by (auto simp add: MotorControlFromGyro_def)
    then show False using e by simp
  qed
qed

theorem Stop_only_within_one_axis_emits_witness:
  "Motor_Stop \<in> set (MotorControlFromGyro 0x3DCCCCCD 0x3DCCCCCD 0)
   \<and> (\<exists>vx vy. float_val 0x3DCCCCCD = Fin vx \<and> float_val 0x3DCCCCCD = Fin vy \<and>
         \<bar>vx\<bar> \<le> 1 / 5 \<and> \<bar>vy\<bar> \<le> 1 / 5)
   \<and> (\<exists>r. float_val 0x3DCCCCCD = Fin r \<and> \<bar>r\<bar> \<le> 1 / 5)
   \<and> \<not> (\<exists>r. float_val 0x3E800000 = Fin r \<and> \<bar>r\<bar> \<le> 1 / 5) \<and> float_val 0x3E800000 \<noteq> NaN
   \<and> (MotorControlFromGyro 0x3DCCCCCD 0x3E800000 0 = [Motor_Forward 3000 3000] \<or>
       MotorControlFromGyro 0x3DCCCCCD 0x3E800000 0 = [Motor_Backward 3000 3000])
   \<and> (MotorControlFromGyro 0x3E800000 0x3DCCCCCD 0 = [Motor_Right 3000 3000] \<or>
       MotorControlFromGyro 0x3E800000 0x3DCCCCCD 0 = [Motor_Left 3000 3000])
   \<and> MotorControlFromGyro 0 0x7FC00000 0 = []
   \<and> (float_val 0 = NaN \<or> float_val 0x7FC00000 = NaN)"
proof -
  have h: "Motor_Stop \<in> set (MotorControlFromGyro 0x3DCCCCCD 0x3DCCCCCD 0)"
    by (simp add: MotorControlFromGyro_def fv_tenth double_0_2_def)
  have "float_val 0x3DCCCCCD = Fin (13421773 / 134217728) \<and>
        \<bar>13421773 / 134217728 :: rat\<bar> \<le> 1 / 5"
    by (simp add: fv_tenth)
  then have w: "\<exists>r. float_val 0x3DCCCCCD = Fin r \<and> \<bar>r\<bar> \<le> 1 / 5"
    by (rule exI)
  have o: "\<not> (\<exists>r. float_val 0x3E800000 = Fin r \<and> \<bar>r\<bar> \<le> 1 / 5)"
    and n: "float_val 0x3E800000 \<noteq> NaN"
    by (simp_all add: fv_quarter)
  have e: "MotorControlFromGyro 0 0x7FC00000 0 = []"
    by (simp add: MotorControlFromGyro_def fv_zero fv_nan double_0_2_def)
  note t = Stop_only_within_one_axis_emits
  have a: "\<exists>vx vy. float_val 0x3DCCCCCD = Fin vx \<and> float_val 0x3DCCCCCD = Fin vy \<and>
         \<bar>vx\<bar> \<le> 1 / 5 \<and> \<bar>vy\<bar> \<le> 1 / 5"
    by (rule mp [OF conjunct1 [OF t [of "0x3DCCCCCD" "0x3DCCCCCD" 0]] h])
  have b: "MotorControlFromGyro 0x3DCCCCCD 0x3E800000 0 = [Motor_Forward 3000 3000] \<or>
       MotorControlFromGyro 0x3DCCCCCD 0x3E800000 0 = [Motor_Backward 3000 3000]"
    by (rule mp [OF conjunct1 [OF conjunct2 [OF t [of "0x3DCCCCCD" "0x3E800000" 0]]]])
       (intro conjI w o n)
  have c: "MotorControlFromGyro 0x3E800000 0x3DCCCCCD 0 = [Motor_Right 3000 3000] \<or>
       MotorControlFromGyro 0x3E800000 0x3DCCCCCD 0 = [Motor_Left 3000 3000]"
    by (rule mp [OF conjunct1 [OF conjunct2 [OF conjunct2 [OF t [of "0x3E800000" "0x3DCCCCCD" 0]]]]])
       (intro conjI w o n)
  have d: "float_val 0 = NaN \<or> float_val 0x7FC00000 = NaN"
    by (rule mp [OF conjunct2 [OF conjunct2 [OF conjunct2 [OF t [of 0 "0x7FC00000" 0]]]] e])
  show ?thesis by (intro conjI h a w o n b c e d)
qed

text \<open>
  When neither value is a NaN and exactly one axis is within the threshold, a
  directional command is issued and Stop is not.
\<close>

lemma one_axis_within_emits_direction:
  assumes "float_val x \<noteq> NaN" "float_val y \<noteq> NaN"
    and "fp_le (fabs (float_val x)) double_0_2 \<noteq> fp_le (fabs (float_val y)) double_0_2"
  shows "MotorControlFromGyro x y z \<noteq> [] \<and> Motor_Stop \<notin> set (MotorControlFromGyro x y z)"
  using assms fp_no_direction [of "float_val x"] fp_no_direction [of "float_val y"]
  by (auto simp add: MotorControlFromGyro_def)

text \<open>
  Claim C10, as stated, fails: with x a NaN (\<open>0x7FC00000\<close>) and y = 0.5 the
  comparison \<open>y > 0.2\<close> holds and Forward is issued.
\<close>

theorem nan_sample_counterexample:
  "float_val 0x7FC00000 = NaN \<and>
   MotorControlFromGyro 0x7FC00000 0x3F000000 0 = [Motor_Forward 3000 3000]"
  by (simp add: MotorControlFromGyro_def fv_nan fv_half double_0_2_def)

text \<open>
  Claim C10, amended. When neither x nor y is a NaN, at least one command is issued.
  When x is a NaN, the x axis issues nothing and there is no Stop: the commands are
  those of the y axis alone; likewise for y. When both are NaN, nothing is issued.
\<close>

theorem emits_unless_nan:
  "(float_val x \<noteq> NaN \<and> float_val y \<noteq> NaN \<longrightarrow> MotorControlFromGyro x y z \<noteq> [])
   \<and> (float_val x = NaN \<longrightarrow>
        MotorControlFromGyro x y z =
          (if fp_less double_0_2 (float_val y) then [Motor_Forward 3000 3000]
           else if fp_less (float_val y) (fp_neg double_0_2) then [Motor_Backward 3000 3000]
           else []))
   \<and> (float_val y = NaN \<longrightarrow>
        MotorControlFromGyro x y z =
          (if fp_less double_0_2 (float_val x) then [Motor_Right 3000 3000]
           else if fp_less (float_val x) (fp_neg double_0_2) then [Motor_Left 3000 3000]
           else []))
   \<and> (float_val x = NaN \<and> float_val y = NaN \<longrightarrow> MotorControlFromGyro x y z = [])"
proof (intro conjI impI)
  assume "float_val x \<noteq> NaN \<and> float_val y \<noteq> NaN"
  then show "MotorControlFromGyro x y z \<noteq> []"
    using fp_no_direction [of "float_val x"] fp_no_direction [of "float_val y"]
    by (auto simp add: MotorControlFromGyro_def)
qed (simp_all add: MotorControlFromGyro_def fp_less_NaN_right)

theorem emits_unless_nan_witness:
  "float_val 0 \<noteq> NaN \<and> float_val 0x3F000000 \<noteq> NaN \<and> MotorControlFromGyro 0 0x3F000000 0 \<noteq> []
   \<and> float_val 0x7FC00000 = NaN \<and> MotorControlFromGyro 0x7FC00000 0x7FC00000 0 = []
   \<and> MotorControlFromGyro 0x7FC00000 0x3F000000 0 = [Motor_Forward 3000 3000]
   \<and> MotorControlFromGyro 0xBF000000 0x7FC00000 0 = [Motor_Left 3000 3000]"
  using emits_unless_nan [of 0 "0x3F000000" 0] emits_unless_nan [of "0x7FC00000" "0x7FC00000" 0]
    emits_unless_nan [of "0x7FC00000" "0x3F000000" 0] emits_unless_nan [of "0xBF000000" "0x7FC00000" 0]
  by (simp add: fv_zero fv_half fv_nan fv_mhalf double_0_2_def)

section \<open>Properties of the frame assembler\<close>






section \<open>Properties of the decoder\<close>

lemma float_of_object_4:
  "float_of_object [b0, b1, b2, b3] =
     ucast b0 OR push_bit 8 (ucast b1 OR push_bit 8 (ucast b2 OR push_bit 8 (ucast b3)))"
  by (simp add: float_of_object_def)

lemma byte_bit_high: "8 \<le> n \<Longrightarrow> \<not> bit (b :: byte) n"
  using bit_imp_le_length [of b n] by auto

lemma float_of_object_spec_le_bytes: "float_of_object (spec_le_bytes w) = w"
  unfolding spec_le_bytes_def float_of_object_4
proof (rule bit_word_eqI)
  fix n :: nat
  assume "n < LENGTH(32)"
  then consider "n < 8" | "8 \<le> n" "n < 16" | "16 \<le> n" "n < 24" | "24 \<le> n" "n < 32"
    by fastforce
  then show "bit (ucast (ucast w :: byte) OR
              push_bit 8 (ucast (ucast (drop_bit 8 w) :: byte) OR
              push_bit 8 (ucast (ucast (drop_bit 16 w) :: byte) OR
              push_bit 8 (ucast (ucast (drop_bit 24 w) :: byte)))) :: float32) n = bit w n"
    by cases (auto simp add: bit_simps)
qed

lemma bytes_of_float_of_object:
  "ucast (float_of_object [b0, b1, b2, b3]) = b0"
  "ucast (drop_bit 8 (float_of_object [b0, b1, b2, b3])) = b1"
  "ucast (drop_bit 16 (float_of_object [b0, b1, b2, b3])) = b2"
  "ucast (drop_bit 24 (float_of_object [b0, b1, b2, b3])) = b3"
  unfolding float_of_object_4
  by (rule bit_word_eqI; auto simp add: bit_simps byte_bit_high)+

lemma spec_le_bytes_float_of_object:
  "length bs = 4 \<Longrightarrow> spec_le_bytes (float_of_object bs) = bs"
proof -
  assume "length bs = 4"
  then obtain b0 b1 b2 b3 where bs: "bs = [b0, b1, b2, b3]"
    by (cases bs; cases "tl bs"; cases "tl (tl bs)"; cases "tl (tl (tl bs))") auto
  show ?thesis unfolding bs spec_le_bytes_def by (simp only: bytes_of_float_of_object)
qed

lemma ExtractFloat_in_range:
  "unat offset + 4 \<le> length buffer \<Longrightarrow>
   ExtractFloat buffer offset = Some (float_of_object (take 4 (drop (unat offset) buffer)))"
  by (simp add: ExtractFloat_def memcpy_src_def)

lemma fv_1_5: "float_val 0x3FC00000 = Fin (3 / 2)" by (simp add: float_val_simps)
lemma fv_m2_25: "float_val 0xC0100000 = Fin (- 9 / 4)" by (simp add: float_val_simps)

text \<open>
  Claim C7. \<open>ExtractFloat\<close> reads the four bytes at the offset and returns the binary32
  value whose little-endian encoding (least significant byte first) they are; so it
  returns \<open>v\<close> where the four bytes are the encoding of \<open>v\<close>. In the valid frame that
  carries 1.5 (\<open>0x3FC00000\<close>), -2.25 (\<open>0xC0100000\<close>) and 0.0 at offsets 2, 6 and 10,
  the three reads of \<open>main\<close> return exactly these values.
\<close>

theorem ExtractFloat_little_endian:
  assumes "unat offset + 4 \<le> length buffer"
  shows "(\<exists>w. ExtractFloat buffer offset = Some w \<and>
              spec_le_bytes w = take 4 (drop (unat offset) buffer))
         \<and> (length pre = unat offset \<longrightarrow>
              ExtractFloat (pre @ spec_le_bytes v @ post) offset = Some v)
         \<and> ExtractFloat ([0x21, 0x47] @ spec_le_bytes 0x3FC00000 @ spec_le_bytes 0xC0100000 @
                          spec_le_bytes 0 @ [0xC8]) 2 = Some 0x3FC00000
         \<and> ExtractFloat ([0x21, 0x47] @ spec_le_bytes 0x3FC00000 @ spec_le_bytes 0xC0100000 @
                          spec_le_bytes 0 @ [0xC8]) 6 = Some 0xC0100000
         \<and> ExtractFloat ([0x21, 0x47] @ spec_le_bytes 0x3FC00000 @ spec_le_bytes 0xC0100000 @
                          spec_le_bytes 0 @ [0xC8]) 10 = Some 0
         \<and> ValidateBLEPacket ([0x21, 0x47] @ spec_le_bytes 0x3FC00000 @
                               spec_le_bytes 0xC0100000 @ spec_le_bytes 0 @ [0xC8]) = Some True
         \<and> ParseBLEPacket ([0x21, 0x47] @ spec_le_bytes 0x3FC00000 @
                            spec_le_bytes 0xC0100000 @ spec_le_bytes 0 @ [0xC8]) =
             Some (Parsed_Floats 0x3FC00000 0xC0100000 0)
         \<and> float_val 0x3FC00000 = Fin (3 / 2) \<and> float_val 0xC0100000 = Fin (- 9 / 4)
         \<and> float_val 0 = Fin 0"
proof -
  have a: "\<exists>w. ExtractFloat buffer offset = Some w \<and>
              spec_le_bytes w = take 4 (drop (unat offset) buffer)"
    using assms by (simp add: ExtractFloat_in_range spec_le_bytes_float_of_object)
  have b: "length pre = unat offset \<longrightarrow>
              ExtractFloat (pre @ spec_le_bytes v @ post) offset = Some v"
  proof
    assume l: "length pre = unat offset"
    have l4: "length (spec_le_bytes v) = 4" by (simp add: spec_le_bytes_def)
    have "unat offset + 4 \<le> length (pre @ spec_le_bytes v @ post)" using l l4 by simp
    from ExtractFloat_in_range [OF this]
    show "ExtractFloat (pre @ spec_le_bytes v @ post) offset = Some v"
      using l l4 by (simp add: float_of_object_spec_le_bytes)
  qed
  let ?pre2 = "[0x21, 0x47] :: byte list"
  let ?pre6 = "[0x21, 0x47] @ spec_le_bytes 0x3FC00000"
  let ?pre10 = "[0x21, 0x47] @ spec_le_bytes 0x3FC00000 @ spec_le_bytes 0xC0100000"
  have c: "ExtractFloat ([0x21, 0x47] @ spec_le_bytes 0x3FC00000 @ spec_le_bytes 0xC0100000 @
                          spec_le_bytes 0 @ [0xC8]) 2 = Some 0x3FC00000"
    by (simp add: ExtractFloat_in_range spec_le_bytes_def float_of_object_4)
  have d: "ExtractFloat ([0x21, 0x47] @ spec_le_bytes 0x3FC00000 @ spec_le_bytes 0xC0100000 @
                          spec_le_bytes 0 @ [0xC8]) 6 = Some 0xC0100000"
    by (simp add: ExtractFloat_in_range spec_le_bytes_def float_of_object_4)
  have e: "ExtractFloat ([0x21, 0x47] @ spec_le_bytes 0x3FC00000 @ spec_le_bytes 0xC0100000 @
                          spec_le_bytes 0 @ [0xC8]) 10 = Some 0"
    by (simp add: ExtractFloat_in_range spec_le_bytes_def float_of_object_4)
  have f: "ValidateBLEPacket ([0x21, 0x47] @ spec_le_bytes 0x3FC00000 @
                               spec_le_bytes 0xC0100000 @ spec_le_bytes 0 @ [0xC8]) = Some True"
    by (simp add: ValidateBLEPacket_eq spec_le_bytes_def)
  have g: "ParseBLEPacket ([0x21, 0x47] @ spec_le_bytes 0x3FC00000 @
                            spec_le_bytes 0xC0100000 @ spec_le_bytes 0 @ [0xC8]) =
             Some (Parsed_Floats 0x3FC00000 0xC0100000 0)"
    by (simp only: ParseBLEPacket_def f c d e) simp
  show ?thesis by (intro conjI a b c d e f g fv_1_5 fv_m2_25 fv_zero)
qed

theorem ExtractFloat_little_endian_witness:
  "unat (6 :: byte) + 4 \<le> length [0x21 :: byte, 0x47, 0, 0, 0xC0, 0x3F, 0, 0, 0x10, 0xC0, 0, 0, 0, 0, 0xC8]
   \<and> ExtractFloat [0x21, 0x47, 0, 0, 0xC0, 0x3F, 0, 0, 0x10, 0xC0, 0, 0, 0, 0, 0xC8] 6 = Some 0xC0100000
   \<and> spec_le_bytes 0xC0100000 = [0, 0, 0x10, 0xC0]"
proof -
  have h: "unat (6 :: byte) + 4 \<le>
           length [0x21 :: byte, 0x47, 0, 0, 0xC0, 0x3F, 0, 0, 0x10, 0xC0, 0, 0, 0, 0, 0xC8]"
    by simp
  have l: "length [0x21 :: byte, 0x47, 0, 0, 0xC0, 0x3F] = unat (6 :: byte)" by simp
  have s: "spec_le_bytes 0xC0100000 = [0, 0, 0x10, 0xC0]" by (simp add: spec_le_bytes_def)
  show ?thesis
    using h s l ExtractFloat_little_endian [OF h, of "[0x21, 0x47, 0, 0, 0xC0, 0x3F]" "0xC0100000"
        "[0, 0, 0, 0, 0xC8]"]
    by simp
qed

section \<open>The claims on the frame assembler and on the main loop\<close>



text \<open>
  Claim C2, at two failing inputs. The valid frame
  \<open>21 47 00 00 00 00 00 00 00 3F 00 00 00 00 58\<close> after the noise \<open>21 00\<close>: the
  function returns 15, but the 0x21 of the noise is still in the buffer and the first 15
  bytes of the buffer are not the frame (they do not validate), since the write
  position is not taken back. The same frame after the noise \<open>21\<close>: the first byte of the
  frame is dropped as a mismatch and no frame is assembled.
\<close>

theorem resync_after_marker_noise:
  "ValidateBLEPacket [0x21, 0x47, 0, 0, 0, 0, 0, 0, 0, 0x3F, 0, 0, 0, 0, 0x58] = Some True
   \<and> BLE_UART_InString ([0x21, 0] @ [0x21, 0x47, 0, 0, 0, 0, 0, 0, 0, 0x3F, 0, 0, 0, 0, 0x58])
        (replicate 128 0) 128 =
      Returned (15, [0x21, 0x21, 0x47, 0, 0, 0, 0, 0, 0, 0, 0x3F, 0, 0, 0, 0, 0x58] @ replicate 112 0, [])
   \<and> take 15 ([0x21, 0x21, 0x47, 0, 0, 0, 0, 0, 0, 0, 0x3F, 0, 0, 0, 0, 0x58] @ replicate 112 0)
        \<noteq> [0x21, 0x47, 0, 0, 0, 0, 0, 0, 0, 0x3F, 0, 0, 0, 0, 0x58 :: byte]
   \<and> ValidateBLEPacket ([0x21, 0x21, 0x47, 0, 0, 0, 0, 0, 0, 0, 0x3F, 0, 0, 0, 0, 0x58] @ replicate 112 0)
        = Some False
   \<and> BLE_UART_InString ([0x21] @ [0x21, 0x47, 0, 0, 0, 0, 0, 0, 0, 0x3F, 0, 0, 0, 0, 0x58])
        (replicate 128 0) 128 = Blocked"
proof -
  have a: "ValidateBLEPacket [0x21, 0x47, 0, 0, 0, 0, 0, 0, 0, 0x3F, 0, 0, 0, 0, 0x58] = Some True"
    by (simp add: ValidateBLEPacket_eq)
  have b: "BLE_UART_InString ([0x21, 0] @ [0x21, 0x47, 0, 0, 0, 0, 0, 0, 0, 0x3F, 0, 0, 0, 0, 0x58])
        (replicate 128 0) 128 =
      Returned (15, [0x21, 0x21, 0x47, 0, 0, 0, 0, 0, 0, 0, 0x3F, 0, 0, 0, 0, 0x58] @ replicate 112 0, [])"
    by code_simp
  have c: "take 15 ([0x21, 0x21, 0x47, 0, 0, 0, 0, 0, 0, 0, 0x3F, 0, 0, 0, 0, 0x58] @ replicate 112 0)
        \<noteq> [0x21, 0x47, 0, 0, 0, 0, 0, 0, 0, 0x3F, 0, 0, 0, 0, 0x58 :: byte]"
    by simp
  have d: "ValidateBLEPacket ([0x21, 0x21, 0x47, 0, 0, 0, 0, 0, 0, 0, 0x3F, 0, 0, 0, 0, 0x58] @ replicate 112 0)
        = Some False"
    by (simp add: ValidateBLEPacket_eq)
  have e: "BLE_UART_InString ([0x21] @ [0x21, 0x47, 0, 0, 0, 0, 0, 0, 0, 0x3F, 0, 0, 0, 0, 0x58])
        (replicate 128 0) 128 = Blocked"
    by (simp add: BLE_UART_InString_def)
  show ?thesis by (intro conjI a b c d e)
qed

text \<open>
  The body of the main loop does not depend on what \<open>ParseBLEPacket\<close> found: the
  commands are those of the three floats at offsets 2, 6 and 10, valid packet or not.
\<close>

lemma main_body_ignores_validation:
  assumes "15 \<le> length buffer"
  shows "main_body buffer =
           Some (MotorControlFromGyro (float_of_object (take 4 (drop 2 buffer)))
                                      (float_of_object (take 4 (drop 6 buffer)))
                                      (float_of_object (take 4 (drop 10 buffer))))"
proof -
  have v: "\<exists>ok. ValidateBLEPacket buffer = Some ok" using assms by (simp add: ValidateBLEPacket_eq)
  have x: "ExtractFloat buffer 2 = Some (float_of_object (take 4 (drop 2 buffer)))"
    and y: "ExtractFloat buffer 6 = Some (float_of_object (take 4 (drop 6 buffer)))"
    and z: "ExtractFloat buffer 10 = Some (float_of_object (take 4 (drop 10 buffer)))"
    using assms by (simp_all add: ExtractFloat_in_range)
  have "\<exists>printed. ParseBLEPacket buffer = Some printed"
    using v by (auto simp add: ParseBLEPacket_def x y z)
  then show ?thesis by (auto simp add: main_body_def x y z)
qed

text \<open>
  Claim C1, at a failing input: the frame \<open>21 47 00 00 00 00 00 00 00 3F 00 00 00 00 00\<close>
  (x = 0, y = 0.5, z = 0, checksum 0x00 where 0x58 is due) fails validation,
  \<open>ParseBLEPacket\<close> reports it invalid and \<open>BLE_UART_HandleRxData\<close> would drop it, but
  the main loop decodes it and issues Forward(3000,3000).
\<close>

theorem invalid_frame_reaches_mapper:
  "ValidateBLEPacket [0x21, 0x47, 0, 0, 0, 0, 0, 0, 0, 0x3F, 0, 0, 0, 0, 0] = Some False
   \<and> ParseBLEPacket [0x21, 0x47, 0, 0, 0, 0, 0, 0, 0, 0x3F, 0, 0, 0, 0, 0] = Some Invalid_BLE_Packet
   \<and> BLE_UART_HandleRxData [0x21, 0x47, 0, 0, 0, 0, 0, 0, 0, 0x3F, 0, 0, 0, 0, 0] 15 =
       Some CRC_check_failed
   \<and> main_body [0x21, 0x47, 0, 0, 0, 0, 0, 0, 0, 0x3F, 0, 0, 0, 0, 0] =
       Some [Motor_Forward 3000 3000]
   \<and> main_iteration [0x21, 0x47, 0, 0, 0, 0, 0, 0, 0, 0x3F, 0, 0, 0, 0, 0] (replicate 128 0) =
       Returned (Some [Motor_Forward 3000 3000],
                 [0x21, 0x47, 0, 0, 0, 0, 0, 0, 0, 0x3F, 0, 0, 0, 0, 0] @ replicate 113 0, [])"
proof -
  let ?bad = "[0x21, 0x47, 0, 0, 0, 0, 0, 0, 0, 0x3F, 0, 0, 0, 0, 0] :: byte list"
  have v: "ValidateBLEPacket ?bad = Some False" by (simp add: ValidateBLEPacket_eq)
  have p: "ParseBLEPacket ?bad = Some Invalid_BLE_Packet" by (simp add: ParseBLEPacket_def v)
  have c: "checkCRC ?bad = Some False" by (simp add: checkCRC_eq ValidateCRC_eq)
  have h: "BLE_UART_HandleRxData ?bad 15 = Some CRC_check_failed"
    by (simp add: BLE_UART_HandleRxData_def rd_def c)
  have m: "MotorControlFromGyro 0 0x3F000000 0 = [Motor_Forward 3000 3000]"
    by (simp add: MotorControlFromGyro_def fv_zero fv_half double_0_2_def)
  have b: "main_body ?bad = Some [Motor_Forward 3000 3000]"
    by (simp add: main_body_ignores_validation float_of_object_4 m)
  have i: "BLE_UART_InString ?bad (replicate 128 0) BLE_UART_BUFFER_SIZE =
           Returned (15, ?bad @ replicate 113 0, [])"
    unfolding BLE_UART_BUFFER_SIZE_def by code_simp
  have b': "main_body (?bad @ replicate 113 0) = Some [Motor_Forward 3000 3000]"
    by (simp add: main_body_ignores_validation float_of_object_4 m)
  have it: "main_iteration ?bad (replicate 128 0) =
       Returned (Some [Motor_Forward 3000 3000], ?bad @ replicate 113 0, [])"
    by (simp only: main_iteration_def i outcome.case prod.case b') simp
  show ?thesis by (intro conjI v p h b it)
qed

end
